theory Spec2Isabelle
  imports Main
begin

section \<open>Data model\<close>

text \<open>
  A bookmark leaf of the outline: its title, and an opaque reference to the place it
  points at. What the reference resolves to is decided by the PDF reader.
\<close>

record destination =
  dest_title :: string
  dest_ref :: nat

text \<open>
  An outline item is a Destination or a Python list of outline items (the
  sub-bookmarks); \<open>reader.outline\<close> is a list of outline items.
\<close>

datatype outline_item = Destination destination | Group "outline_item list"

text \<open>
  The three outcomes of \<open>reader.get_destination_page_number(item)\<close>: a page number,
  \<open>None\<close>, or an exception.
\<close>

datatype resolution = Resolved int | Unresolved | ResolveError

text \<open>A source page; \<open>writer.add_page\<close> raises on a corrupt one.\<close>

datatype page = Intact | Corrupt

record reader =
  outline :: "outline_item list"
  pages :: "page list"
  get_destination_page_number :: "destination \<Rightarrow> resolution"

text \<open>The dictionary appended by the walker: \<open>{"title", "start_page", "level"}\<close>.\<close>

record chapter_start =
  title :: string
  start_page :: int
  level :: int

section \<open>Outline walker and level prober\<close>

text \<open>
  \<open>find_chapter_bookmarks(outline_items, reader, target_level, current_level)\<close>:
  one equation per branch of the loop body; the warning printed in the \<open>except\<close>
  branch adds nothing to the returned list.
\<close>

fun find_chapter_bookmarks ::
  "outline_item list \<Rightarrow> reader \<Rightarrow> int \<Rightarrow> int \<Rightarrow> chapter_start list" where
  "find_chapter_bookmarks [] rd target_level current_level = []"
| "find_chapter_bookmarks (Group sub # rest) rd target_level current_level =
     (if current_level < target_level
      then find_chapter_bookmarks sub rd target_level (current_level + 1)
      else [])
     @ find_chapter_bookmarks rest rd target_level current_level"
| "find_chapter_bookmarks (Destination d # rest) rd target_level current_level =
     (if current_level = target_level
      then (case get_destination_page_number rd d of
              Resolved page_num \<Rightarrow>
                [\<lparr>title = dest_title d, start_page = page_num, level = current_level\<rparr>]
            | Unresolved \<Rightarrow> []
            | ResolveError \<Rightarrow> [])
      else [])
     @ find_chapter_bookmarks rest rd target_level current_level"

text \<open>\<open>get_available_bookmark_levels(outline_items, current_level)\<close>.\<close>

fun get_available_bookmark_levels :: "outline_item list \<Rightarrow> int \<Rightarrow> int set" where
  "get_available_bookmark_levels [] current_level = {}"
| "get_available_bookmark_levels (Group sub # rest) current_level =
     get_available_bookmark_levels sub (current_level + 1)
     \<union> get_available_bookmark_levels rest current_level"
| "get_available_bookmark_levels (Destination d # rest) current_level =
     insert current_level (get_available_bookmark_levels rest current_level)"

text \<open>
  The specification's notion of depth, independent of both traversals:
  \<open>at_depth items k d\<close> holds when the Destination \<open>d\<close> occurs in the tree
  \<open>items\<close> below exactly \<open>k\<close> nested Groups.
\<close>

inductive at_depth :: "outline_item list \<Rightarrow> nat \<Rightarrow> destination \<Rightarrow> bool" where
  here: "at_depth (Destination d # rest) 0 d"
| below: "at_depth sub k d \<Longrightarrow> at_depth (Group sub # rest) (Suc k) d"
| later: "at_depth rest k d \<Longrightarrow> at_depth (item # rest) k d"

code_pred at_depth .

section \<open>Filename sanitization\<close>

text \<open>
  Titles are Python strings; a character is modelled by its code point below 256.
  \<open>disallowed\<close> is the class \<open>[<>:"/\\|?*]\<close> of the first substitution
  (\<open>0x22\<close> is the double quote, \<open>0x5C\<close> the backslash); \<open>py_isspace\<close> is what
  \<open>\s\<close> and \<open>str.strip()\<close> treat as whitespace among these code points.
\<close>

definition disallowed :: "char \<Rightarrow> bool" where
  "disallowed c \<longleftrightarrow>
     c \<in> set [CHR ''<'', CHR ''>'', CHR '':'', CHR 0x22, CHR ''/'', CHR 0x5C,
              CHR ''|'', CHR ''?'', CHR ''*'']"

definition py_isspace :: "char \<Rightarrow> bool" where
  "py_isspace c \<longleftrightarrow>
     c \<in> set [CHR 0x09, CHR 0x0A, CHR 0x0B, CHR 0x0C, CHR 0x0D, CHR 0x1C, CHR 0x1D,
              CHR 0x1E, CHR 0x1F, CHR 0x20, CHR 0x85, CHR 0xA0]"

text \<open>\<open>re.sub(r'[<>:"/\\|?*]', '_', name)\<close>\<close>

definition sub_disallowed :: "string \<Rightarrow> string" where
  "sub_disallowed name = map (\<lambda>c. if disallowed c then CHR ''_'' else c) name"

text \<open>\<open>re.sub(r'\s+', ' ', name)\<close>: every maximal run of whitespace becomes one space.\<close>

function collapse_whitespace :: "string \<Rightarrow> string" where
  "collapse_whitespace [] = []"
| "collapse_whitespace (c # cs) =
     (if py_isspace c then CHR '' '' # collapse_whitespace (dropWhile py_isspace cs)
      else c # collapse_whitespace cs)"
  by pat_completeness auto
termination
  by (relation "measure length") (auto simp: length_dropWhile_le less_Suc_eq_le)

text \<open>\<open>str.strip()\<close>\<close>

definition strip :: "string \<Rightarrow> string" where
  "strip s = rev (dropWhile py_isspace (rev (dropWhile py_isspace s)))"

definition sanitize_filename :: "string \<Rightarrow> string" where
  "sanitize_filename name =
     (if name = [] then ''untitled''
      else let name1 = sub_disallowed name;
               name2 = strip (collapse_whitespace name1);
               name3 = take 150 name2
           in if name3 = [] then ''untitled_chapter'' else name3)"

section \<open>Sorting and removal of duplicate starts\<close>

text \<open>
  \<open>chapter_starts.sort(key=lambda x: x['start_page'])\<close> is Python's stable sort; it is
  modelled by the stable \<^const>\<open>sort_key\<close>. The loop that follows keeps the records
  whose page is not yet in \<open>seen_pages\<close>.
\<close>

fun dedup_loop ::
  "chapter_start list \<Rightarrow> chapter_start list \<Rightarrow> int set \<Rightarrow> chapter_start list" where
  "dedup_loop [] unique_chapter_starts seen_pages = unique_chapter_starts"
| "dedup_loop (ch_info # rest) unique_chapter_starts seen_pages =
     (if start_page ch_info \<notin> seen_pages
      then dedup_loop rest (unique_chapter_starts @ [ch_info])
             (insert (start_page ch_info) seen_pages)
      else dedup_loop rest unique_chapter_starts seen_pages)"

definition sort_and_dedup :: "chapter_start list \<Rightarrow> chapter_start list" where
  "sort_and_dedup chapter_starts = dedup_loop (sort_key start_page chapter_starts) [] {}"

section \<open>Page ranges and emission\<close>

text \<open>What one run prints or writes for a chapter, in order.\<close>

datatype event =
    SkippedEmptySpan string int int
  | SkippedInvalidRange string int int
  | Extracting string int int
  | PageError int string
  | SkippedNoPages string
  | Saved string "int list"
  | SaveError string

text \<open>Python indexing \<open>xs[i]\<close>; \<open>None\<close> stands for \<open>IndexError\<close>.\<close>

definition py_index :: "'a list \<Rightarrow> int \<Rightarrow> 'a option" where
  "py_index xs i =
     (let n = int (length xs); j = (if i < 0 then n + i else i)
      in if 0 \<le> j \<and> j < n then Some (xs ! nat j) else None)"

text \<open>
  \<open>writer.add_page(reader.pages[page_num])\<close>. The writer is the list of source page
  numbers appended so far; \<open>None\<close> stands for the exception.
\<close>

definition add_page :: "reader \<Rightarrow> int list \<Rightarrow> int \<Rightarrow> int list option" where
  "add_page rd writer page_num =
     (case py_index (pages rd) page_num of
        Some Intact \<Rightarrow> Some (writer @ [page_num])
      | Some Corrupt \<Rightarrow> None
      | None \<Rightarrow> None)"

text \<open>The loop \<open>for page_num in range(start_page_idx, end_page_idx + 1)\<close>.\<close>

fun copy_pages ::
  "reader \<Rightarrow> string \<Rightarrow> int list \<Rightarrow> int list \<Rightarrow> event list \<Rightarrow> int list \<times> event list" where
  "copy_pages rd ttl [] writer log = (writer, log)"
| "copy_pages rd ttl (page_num # rest) writer log =
     (case add_page rd writer page_num of
        Some writer' \<Rightarrow> copy_pages rd ttl rest writer' log
      | None \<Rightarrow> copy_pages rd ttl rest writer (log @ [PageError (page_num + 1) ttl]))"

text \<open>The format \<open>{n:03d}\<close> of a natural number.\<close>

definition digit_char :: "nat \<Rightarrow> char" where
  "digit_char n = char_of (48 + n)"

function decimal :: "nat \<Rightarrow> string" where
  "decimal n = (if n < 10 then [digit_char n] else decimal (n div 10) @ [digit_char (n mod 10)])"
  by pat_completeness auto
termination
  by (relation "measure id") auto

declare decimal.simps [simp del]

definition format_03d :: "nat \<Rightarrow> string" where
  "format_03d n = replicate (3 - length (decimal n)) CHR ''0'' @ decimal n"

definition end_page_idx :: "chapter_start list \<Rightarrow> int \<Rightarrow> nat \<Rightarrow> int" where
  "end_page_idx chapter_starts num_pages_total i =
     (if i + 1 < length chapter_starts
      then start_page (chapter_starts ! (i + 1)) - 1
      else num_pages_total - 1)"

definition output_filename :: "chapter_start list \<Rightarrow> nat \<Rightarrow> string" where
  "output_filename chapter_starts i =
     format_03d (i + 1) @ ''_'' @ sanitize_filename (title (chapter_starts ! i)) @ ''.pdf''"

text \<open>
  One iteration of \<open>for i in range(len(chapter_starts))\<close>; each \<open>continue\<close> ends the
  iteration with the events so far. \<open>can_save\<close> tells whether writing the file of
  that name succeeds.
\<close>

definition process_chapter ::
  "reader \<Rightarrow> (string \<Rightarrow> bool) \<Rightarrow> chapter_start list \<Rightarrow> nat \<Rightarrow> event list" where
  "process_chapter rd can_save chapter_starts i =
     (let num_pages_total = int (length (pages rd));
          ttl = title (chapter_starts ! i);
          start_page_idx = start_page (chapter_starts ! i);
          end_idx = end_page_idx chapter_starts num_pages_total i
      in if start_page_idx > end_idx
         then [SkippedEmptySpan ttl (start_page_idx + 1) (end_idx + 1)]
         else if \<not> (0 \<le> start_page_idx \<and> start_page_idx < num_pages_total
                    \<and> 0 \<le> end_idx \<and> end_idx < num_pages_total)
         then [SkippedInvalidRange ttl (start_page_idx + 1) (end_idx + 1)]
         else (case copy_pages rd ttl [start_page_idx..end_idx] []
                      [Extracting ttl (start_page_idx + 1) (end_idx + 1)] of
                 (writer, log) \<Rightarrow>
                   if writer = [] then log @ [SkippedNoPages ttl]
                   else if can_save (output_filename chapter_starts i)
                   then log @ [Saved (output_filename chapter_starts i) writer]
                   else log @ [SaveError (output_filename chapter_starts i)]))"

fun emission_loop ::
  "reader \<Rightarrow> (string \<Rightarrow> bool) \<Rightarrow> chapter_start list \<Rightarrow> nat list \<Rightarrow> event list" where
  "emission_loop rd can_save chapter_starts [] = []"
| "emission_loop rd can_save chapter_starts (i # rest) =
     process_chapter rd can_save chapter_starts i
     @ emission_loop rd can_save chapter_starts rest"

text \<open>
  \<open>extract_chapters_from_pdf\<close> from the point where the document has been parsed.
  The result names the \<open>return\<close> that ends the run; the list of levels is the
  \<open>sorted(list(available_levels))\<close> of the report.
\<close>

datatype outcome =
    NoOutline
  | NoBookmarksAtLevel int "int list"
  | NoValidStarts
  | ExtractionComplete "event list"

definition extract_chapters_from_pdf :: "reader \<Rightarrow> (string \<Rightarrow> bool) \<Rightarrow> int \<Rightarrow> outcome" where
  "extract_chapters_from_pdf rd can_save chapter_level =
     (if outline rd = [] then NoOutline
      else let found = find_chapter_bookmarks (outline rd) rd chapter_level 0
           in if found = []
              then NoBookmarksAtLevel chapter_level
                     (sorted_list_of_set (get_available_bookmark_levels (outline rd) 0))
              else let chapter_starts = sort_and_dedup found
                   in if chapter_starts = [] then NoValidStarts
                      else ExtractionComplete
                             (emission_loop rd can_save chapter_starts
                                [0..<length chapter_starts]))"

text \<open>The names of the files a run has written, in the order of writing.\<close>

fun saved_file :: "event \<Rightarrow> string option" where
  "saved_file (Saved fname ps) = Some fname"
| "saved_file _ = None"

definition saved_files :: "event list \<Rightarrow> string list" where
  "saved_files evs = List.map_filter saved_file evs"

text \<open>Whether \<open>writer.add_page(reader.pages[page_num])\<close> goes through.\<close>

definition copyable :: "reader \<Rightarrow> int \<Rightarrow> bool" where
  "copyable rd page_num \<longleftrightarrow> add_page rd [] page_num \<noteq> None"

text \<open>Whether the iteration for index \<open>i\<close> writes a file.\<close>

definition chapter_saved ::
  "reader \<Rightarrow> (string \<Rightarrow> bool) \<Rightarrow> chapter_start list \<Rightarrow> nat \<Rightarrow> bool" where
  "chapter_saved rd can_save chapter_starts i \<longleftrightarrow>
     saved_files (process_chapter rd can_save chapter_starts i) \<noteq> []"

section \<open>A sample document\<close>

text \<open>
  Two pages, the first corrupt; top-level bookmarks \<open>A\<close> (page 0) and \<open>B\<close> (page 1),
  and a sub-bookmark \<open>A.1\<close> (page 0) nested under \<open>A\<close>. Every file can be saved.
\<close>

definition resolve_by_ref :: "destination \<Rightarrow> resolution" where
  "resolve_by_ref d = Resolved (int (dest_ref d))"

definition always_saves :: "string \<Rightarrow> bool" where
  "always_saves fname = True"

definition sample_outline :: "outline_item list" where
  "sample_outline =
     [Destination \<lparr>dest_title = ''A'', dest_ref = 0\<rparr>,
      Group [Destination \<lparr>dest_title = ''A.1'', dest_ref = 0\<rparr>],
      Destination \<lparr>dest_title = ''B'', dest_ref = 1\<rparr>]"

definition sample_reader :: reader where
  "sample_reader =
     \<lparr>outline = sample_outline, pages = [Corrupt, Intact],
      get_destination_page_number = resolve_by_ref\<rparr>"

text \<open>Three records as a walker could return them: two of them start on page 3.\<close>

definition sample_starts :: "chapter_start list" where
  "sample_starts =
     [\<lparr>title = ''Part'', start_page = 3, level = 0\<rparr>,
      \<lparr>title = ''Intro'', start_page = 1, level = 0\<rparr>,
      \<lparr>title = ''Part again'', start_page = 3, level = 0\<rparr>]"

text \<open>The top-level chapter starts of the sample document, sorted and deduplicated.\<close>

definition sample_chapters :: "chapter_start list" where
  "sample_chapters =
     [\<lparr>title = ''A'', start_page = 0, level = 0\<rparr>,
      \<lparr>title = ''B'', start_page = 1, level = 0\<rparr>]"

text \<open>A title made of every character of the disallowed class.\<close>

definition all_disallowed_title :: string where
  "all_disallowed_title =
     [CHR ''<'', CHR ''>'', CHR '':'', CHR 0x22, CHR ''/'', CHR 0x5C, CHR ''|'', CHR ''?'',
      CHR ''*'']"

section \<open>Outline traversal: auxiliary facts\<close>

inductive_simps at_depth_Nil [simp]: "at_depth [] k d"
inductive_simps at_depth_Destination [simp]: "at_depth (Destination x # rest) k d"
inductive_simps at_depth_Group [simp]: "at_depth (Group sub # rest) k d"

lemma find_chapter_bookmarks_above:
  "target_level < current_level \<Longrightarrow> find_chapter_bookmarks items rd target_level current_level = []"
  by (induction items rd target_level current_level rule: find_chapter_bookmarks.induct) auto

lemma find_chapter_bookmarks_mem:
  "c \<in> set (find_chapter_bookmarks items rd tlv clv) \<longleftrightarrow>
     clv \<le> tlv \<and> level c = tlv \<and>
     (\<exists>d. at_depth items (nat (tlv - clv)) d
          \<and> get_destination_page_number rd d = Resolved (start_page c)
          \<and> title c = dest_title d)"
proof (induction items rd tlv clv rule: find_chapter_bookmarks.induct)
  case (1 rd tlv clv)
  show ?case by simp
next
  case (2 sub rest rd tlv clv)
  show ?case
  proof (cases "clv < tlv")
    case True
    then have "nat (tlv - clv) = Suc (nat (tlv - (clv + 1)))" by simp
    with True 2 show ?thesis by auto
  next
    case False
    with 2 show ?thesis by auto
  qed
next
  case (3 d rest rd tlv clv)
  show ?case
  proof (cases "clv = tlv")
    case True
    with 3 show ?thesis by (cases "get_destination_page_number rd d") auto
  next
    case False
    with 3 show ?thesis by auto
  qed
qed

lemma levels_mem:
  "n \<in> get_available_bookmark_levels items clv \<longleftrightarrow> (\<exists>k d. n = clv + int k \<and> at_depth items k d)"
proof (induction items clv rule: get_available_bookmark_levels.induct)
  case (1 clv)
  show ?case by simp
next
  case (2 sub rest clv)
  have "(\<exists>k d. n = clv + 1 + int k \<and> at_depth sub k d) \<longleftrightarrow> (\<exists>k d. n = clv + int k \<and> (\<exists>j. k = Suc j \<and> at_depth sub j d))"
  proof
    assume "\<exists>k d. n = clv + 1 + int k \<and> at_depth sub k d"
    then obtain k d where "n = clv + 1 + int k" "at_depth sub k d" by blast
    then have "n = clv + int (Suc k) \<and> (\<exists>j. Suc k = Suc j \<and> at_depth sub j d)" by simp
    then show "\<exists>k d. n = clv + int k \<and> (\<exists>j. k = Suc j \<and> at_depth sub j d)" by blast
  next
    assume "\<exists>k d. n = clv + int k \<and> (\<exists>j. k = Suc j \<and> at_depth sub j d)"
    then obtain j d where "n = clv + int (Suc j)" "at_depth sub j d" by blast
    then have "n = clv + 1 + int j \<and> at_depth sub j d" by simp
    then show "\<exists>k d. n = clv + 1 + int k \<and> at_depth sub k d" by blast
  qed
  with 2 show ?case by auto
next
  case (3 d rest clv)
  then show ?case by auto
qed

section \<open>Sorting and duplicates: auxiliary facts\<close>

lemma dedup_loop_acc:
  "dedup_loop xs acc seen = acc @ dedup_loop xs [] seen"
proof (induction xs arbitrary: acc seen)
  case Nil
  show ?case by simp
next
  case (Cons x xs)
  show ?case
    using Cons.IH [of "acc @ [x]" "insert (start_page x) seen"]
          Cons.IH [of "[x]" "insert (start_page x) seen"]
          Cons.IH [of acc seen]
    by simp
qed

lemma dedup_loop_Cons:
  "dedup_loop (x # xs) [] seen =
     (if start_page x \<notin> seen then x # dedup_loop xs [] (insert (start_page x) seen)
      else dedup_loop xs [] seen)"
  using dedup_loop_acc [of xs "[x]" "insert (start_page x) seen"] by simp

lemma dedup_loop_pages:
  "start_page ` set (dedup_loop xs [] seen) = start_page ` set xs - seen"
  by (induction xs arbitrary: seen) (auto simp: dedup_loop_Cons simp del: dedup_loop.simps(2))

lemma dedup_loop_subset: "set (dedup_loop xs [] seen) \<subseteq> set xs"
  by (induction xs arbitrary: seen) (auto simp: dedup_loop_Cons simp del: dedup_loop.simps(2))

lemma dedup_loop_distinct: "distinct (map start_page (dedup_loop xs [] seen))"
proof (induction xs arbitrary: seen)
  case Nil
  show ?case by simp
next
  case (Cons x xs)
  have "start_page x \<notin> start_page ` set (dedup_loop xs [] (insert (start_page x) seen))"
    by (simp add: dedup_loop_pages)
  with Cons show ?case by (simp add: dedup_loop_Cons del: dedup_loop.simps(2))
qed

lemma dedup_loop_sorted:
  "sorted (map start_page xs) \<Longrightarrow> sorted (map start_page (dedup_loop xs [] seen))"
proof (induction xs arbitrary: seen)
  case Nil
  show ?case by simp
next
  case (Cons x xs)
  have "\<forall>y \<in> set (dedup_loop xs [] (insert (start_page x) seen)). start_page x \<le> start_page y"
    using Cons.prems dedup_loop_subset [of xs "insert (start_page x) seen"] by auto
  with Cons show ?case by (simp add: dedup_loop_Cons del: dedup_loop.simps(2))
qed

lemma dedup_loop_first:
  "c \<in> set (dedup_loop xs [] seen) \<Longrightarrow> find (\<lambda>x. start_page x = start_page c) xs = Some c"
proof (induction xs arbitrary: seen)
  case Nil
  then show ?case by simp
next
  case (Cons x xs)
  show ?case
  proof (cases "start_page x = start_page c")
    case True
    have "start_page c \<notin> start_page ` set (dedup_loop xs [] (insert (start_page x) seen))"
      using True by (simp add: dedup_loop_pages)
    then have "c \<notin> set (dedup_loop xs [] (insert (start_page x) seen))" by blast
    moreover have "start_page c \<notin> seen"
      using Cons.prems dedup_loop_pages [of "x # xs" seen] by blast
    ultimately show ?thesis using Cons.prems True by (simp add: dedup_loop_Cons del: dedup_loop.simps(2))
  next
    case False
    with Cons show ?thesis by (auto simp: dedup_loop_Cons simp del: dedup_loop.simps(2) split: if_splits)
  qed
qed

lemma find_filter: "find P xs = (case filter P xs of [] \<Rightarrow> None | x # _ \<Rightarrow> Some x)"
  by (induction xs) auto

lemma find_sort_key: "find (\<lambda>x. f x = k) (sort_key f xs) = find (\<lambda>x. f x = k) xs"
  by (simp add: find_filter sort_key_stable)

lemma dedup_loop_hd: "xs \<noteq> [] \<Longrightarrow> seen = {} \<Longrightarrow> dedup_loop xs [] seen \<noteq> [] \<and> hd (dedup_loop xs [] seen) = hd xs"
  by (cases xs) (auto simp: dedup_loop_Cons simp del: dedup_loop.simps(2))

section \<open>Emission: auxiliary facts\<close>

lemma add_page_copyable:
  "add_page rd writer p = (if copyable rd p then Some (writer @ [p]) else None)"
  by (simp add: copyable_def add_page_def split: option.splits page.splits)

lemma copy_pages_eq:
  "copy_pages rd ttl ps writer log =
     (writer @ filter (copyable rd) ps,
      log @ map (\<lambda>p. PageError (p + 1) ttl) (filter (\<lambda>p. \<not> copyable rd p) ps))"
  by (induction ps arbitrary: writer log) (simp_all add: add_page_copyable)

lemma process_chapter_valid:
  assumes "s = start_page (cs ! i)" "e = end_page_idx cs (int (length (pages rd))) i"
      and "s \<le> e" "0 \<le> s" "e < int (length (pages rd))"
  shows "process_chapter rd can_save cs i =
           Extracting (title (cs ! i)) (s + 1) (e + 1)
           # map (\<lambda>p. PageError (p + 1) (title (cs ! i))) (filter (\<lambda>p. \<not> copyable rd p) [s..e])
           @ [if filter (copyable rd) [s..e] = [] then SkippedNoPages (title (cs ! i))
              else if can_save (output_filename cs i)
              then Saved (output_filename cs i) (filter (copyable rd) [s..e])
              else SaveError (output_filename cs i)]"
  using assms by (simp add: process_chapter_def Let_def copy_pages_eq)

lemma process_chapter_empty_span:
  assumes "s = start_page (cs ! i)" "e = end_page_idx cs (int (length (pages rd))) i" "e < s"
  shows "process_chapter rd can_save cs i = [SkippedEmptySpan (title (cs ! i)) (s + 1) (e + 1)]"
  using assms by (simp add: process_chapter_def Let_def)

lemma process_chapter_invalid:
  assumes "s = start_page (cs ! i)" "e = end_page_idx cs (int (length (pages rd))) i"
      and "s \<le> e" "s < 0 \<or> int (length (pages rd)) \<le> e"
  shows "process_chapter rd can_save cs i = [SkippedInvalidRange (title (cs ! i)) (s + 1) (e + 1)]"
  using assms by (auto simp add: process_chapter_def Let_def)

lemma saved_files_Nil: "saved_files [] = []"
  by (simp add: saved_files_def)

lemma saved_files_Cons:
  "saved_files (ev # evs) =
     (case saved_file ev of None \<Rightarrow> saved_files evs | Some f \<Rightarrow> f # saved_files evs)"
  by (simp add: saved_files_def split: option.splits)

lemma saved_files_append: "saved_files (xs @ ys) = saved_files xs @ saved_files ys"
  by (induction xs) (simp_all add: saved_files_Cons saved_files_Nil split: option.splits)

lemma saved_files_page_errors: "saved_files (map (\<lambda>p. PageError (f p) t) ps) = []"
  by (induction ps) (simp_all add: saved_files_Cons saved_files_Nil)

lemma saved_files_process_chapter:
  "saved_files (process_chapter rd can_save cs i) = [] \<or>
   saved_files (process_chapter rd can_save cs i) = [output_filename cs i]"
proof -
  let ?s = "start_page (cs ! i)"
  let ?e = "end_page_idx cs (int (length (pages rd))) i"
  consider "?e < ?s" | "?s \<le> ?e" "?s < 0 \<or> int (length (pages rd)) \<le> ?e"
    | "?s \<le> ?e" "0 \<le> ?s" "?e < int (length (pages rd))" by linarith
  then show ?thesis
  proof cases
    case 1
    then show ?thesis
      by (simp add: process_chapter_empty_span [OF refl refl] saved_files_Cons saved_files_Nil)
  next
    case 2
    then show ?thesis
      by (simp add: process_chapter_invalid [OF refl refl] saved_files_Cons saved_files_Nil)
  next
    case 3
    show ?thesis
      unfolding process_chapter_valid [OF refl refl 3]
      by (simp add: saved_files_Cons saved_files_append saved_files_page_errors saved_files_Nil)
  qed
qed

lemma saved_files_emission_loop:
  "saved_files (emission_loop rd can_save cs idxs) =
     map (output_filename cs) (filter (chapter_saved rd can_save cs) idxs)"
proof (induction idxs)
  case Nil
  show ?case by (simp add: saved_files_Nil)
next
  case (Cons i idxs)
  then show ?case
    using saved_files_process_chapter [of rd can_save cs i]
    by (auto simp: saved_files_append chapter_saved_def)
qed

lemma emission_loop_append:
  "emission_loop rd can_save cs (xs @ ys) = emission_loop rd can_save cs xs @ emission_loop rd can_save cs ys"
  by (induction xs) simp_all

lemma emission_loop_split:
  assumes "i < n"
  shows "emission_loop rd can_save cs [0..<n] =
           emission_loop rd can_save cs [0..<i] @ process_chapter rd can_save cs i
           @ emission_loop rd can_save cs [Suc i..<n]"
proof -
  have "[0..<n] = [0..<i] @ i # [Suc i..<n]"
    using assms upt_add_eq_append [of 0 i "n - i"] by (simp add: upt_conv_Cons)
  then show ?thesis by (simp add: emission_loop_append)
qed

section \<open>The outline walker\<close>

text \<open>
  Claim C10. For every outline and every negative target level, the walker started at
  depth 0 returns the empty list: it neither descends into a Group nor resolves a
  Destination. A run that reaches the walker with a negative \<open>chapter_level\<close> (the
  document has an outline, that is \<open>reader.outline\<close> is not empty) therefore ends in
  the report that no bookmarks were found at this level, together with the sorted
  list of the levels that do hold bookmarks.
\<close>
theorem negative_level_finds_nothing:
  assumes "target_level < 0"
  shows "find_chapter_bookmarks items rd target_level 0 = []
       \<and> (outline rd \<noteq> [] \<longrightarrow>
            extract_chapters_from_pdf rd can_save target_level =
              NoBookmarksAtLevel target_level
                (sorted_list_of_set (get_available_bookmark_levels (outline rd) 0)))"
proof -
  have "find_chapter_bookmarks xs rd target_level 0 = []" for xs
    using assms by (rule find_chapter_bookmarks_above)
  then show ?thesis by (simp add: extract_chapters_from_pdf_def)
qed

theorem negative_level_finds_nothing_witness:
  "(-1::int) < 0
   \<and> find_chapter_bookmarks sample_outline sample_reader (-1) 0 = []
   \<and> outline sample_reader \<noteq> []
   \<and> extract_chapters_from_pdf sample_reader always_saves (-1) = NoBookmarksAtLevel (-1) [0, 1]"
proof -
  have neg: "(-1::int) < 0" by simp
  have ne: "outline sample_reader \<noteq> []" by (simp add: sample_reader_def sample_outline_def)
  have lv: "sorted_list_of_set (get_available_bookmark_levels (outline sample_reader) 0) = [0, 1]"
    by code_simp
  from negative_level_finds_nothing [OF neg, of sample_outline sample_reader always_saves] ne lv neg
  show ?thesis by simp
qed

text \<open>
  Claim C5. A record is returned by the walker (started at depth 0) exactly when the
  target level is not negative, the record's level is the target level, and the
  record is the title and resolved page of some Destination that lies at depth
  exactly the target level. So records come only from Destinations at that depth:
  a Group yields no record of its own, a Destination at another depth yields
  nothing, and neither does one whose page does not resolve.
\<close>
theorem find_chapter_bookmarks_target_level_only:
  "c \<in> set (find_chapter_bookmarks items rd target_level 0) \<longleftrightarrow>
     0 \<le> target_level \<and> level c = target_level \<and>
     (\<exists>d. at_depth items (nat target_level) d
          \<and> get_destination_page_number rd d = Resolved (start_page c)
          \<and> title c = dest_title d)"
  using find_chapter_bookmarks_mem [of c items rd target_level 0] by simp

theorem find_chapter_bookmarks_target_level_only_witness:
  "\<lparr>title = ''A.1'', start_page = 0, level = 1\<rparr>
     \<in> set (find_chapter_bookmarks sample_outline sample_reader 1 0)
   \<and> find_chapter_bookmarks sample_outline sample_reader 1 0
       = [\<lparr>title = ''A.1'', start_page = 0, level = 1\<rparr>]
   \<and> at_depth sample_outline 1 \<lparr>dest_title = ''A.1'', dest_ref = 0\<rparr>"
proof -
  let ?d = "\<lparr>dest_title = ''A.1'', dest_ref = 0\<rparr>"
  have d: "at_depth sample_outline 1 ?d"
    by (simp add: sample_outline_def)
  have r: "get_destination_page_number sample_reader ?d = Resolved 0"
    by (simp add: sample_reader_def resolve_by_ref_def)
  have ev: "find_chapter_bookmarks sample_outline sample_reader 1 0
       = [\<lparr>title = ''A.1'', start_page = 0, level = 1\<rparr>]" by code_simp
  have "\<lparr>title = ''A.1'', start_page = 0, level = 1\<rparr>
     \<in> set (find_chapter_bookmarks sample_outline sample_reader 1 0)"
    using d r
    by (subst find_chapter_bookmarks_target_level_only) auto
  with d ev show ?thesis by simp
qed

section \<open>The level prober\<close>

text \<open>
  Claim C7. \<open>get_available_bookmark_levels\<close>, started at depth 0, returns exactly the
  set of depths at which some Destination occurs.
\<close>
theorem available_levels_exact:
  "get_available_bookmark_levels items 0 = {int k |k. \<exists>d. at_depth items k d}"
  using levels_mem [of _ items 0] by auto

theorem available_levels_exact_witness:
  "{int k |k. \<exists>d. at_depth sample_outline k d} = {0, 1}"
proof -
  have "get_available_bookmark_levels sample_outline 0 = {0, 1}"
    by (simp add: sample_outline_def insert_commute)
  with available_levels_exact [of sample_outline] show ?thesis by simp
qed

section \<open>Sorting and removal of duplicates\<close>

text \<open>
  Claim C4. The sort is ascending by \<open>start_page\<close> and stable (for every page, the
  records with that page come in their original order); every record that survives
  the removal of duplicates is the first one with its page, in the sorted list and
  so in the raw list as well; every page of the raw list keeps a record; and the
  pages of the result are strictly increasing.
\<close>
theorem sort_and_dedup_spec:
  "sorted (map start_page (sort_key start_page raw))
   \<and> (\<forall>k. filter (\<lambda>c. start_page c = k) (sort_key start_page raw)
          = filter (\<lambda>c. start_page c = k) raw)
   \<and> (\<forall>c \<in> set (sort_and_dedup raw).
          find (\<lambda>x. start_page x = start_page c) (sort_key start_page raw) = Some c
        \<and> find (\<lambda>x. start_page x = start_page c) raw = Some c)
   \<and> start_page ` set (sort_and_dedup raw) = start_page ` set raw
   \<and> sorted_wrt (<) (map start_page (sort_and_dedup raw))"
proof -
  let ?s = "sort_key start_page raw"
  have 1: "sorted (map start_page ?s)" by (rule sorted_sort_key)
  have 2: "\<forall>k. filter (\<lambda>c. start_page c = k) ?s = filter (\<lambda>c. start_page c = k) raw"
    by (simp add: sort_key_stable)
  have 3: "\<forall>c \<in> set (sort_and_dedup raw).
          find (\<lambda>x. start_page x = start_page c) ?s = Some c
        \<and> find (\<lambda>x. start_page x = start_page c) raw = Some c"
    using dedup_loop_first [of _ ?s "{}"] by (simp add: sort_and_dedup_def find_sort_key)
  have 4: "start_page ` set (sort_and_dedup raw) = start_page ` set raw"
    by (simp add: sort_and_dedup_def dedup_loop_pages)
  have 5: "sorted_wrt (<) (map start_page (sort_and_dedup raw))"
    unfolding strict_sorted_iff sort_and_dedup_def
    using dedup_loop_sorted [OF 1] dedup_loop_distinct by blast
  from 1 2 3 4 5 show ?thesis by blast
qed

theorem sort_and_dedup_spec_witness:
  "sort_and_dedup sample_starts =
     [\<lparr>title = ''Intro'', start_page = 1, level = 0\<rparr>,
      \<lparr>title = ''Part'', start_page = 3, level = 0\<rparr>]
   \<and> \<lparr>title = ''Part'', start_page = 3, level = 0\<rparr> \<in> set (sort_and_dedup sample_starts)
   \<and> find (\<lambda>x. start_page x = 3) sample_starts
       = Some \<lparr>title = ''Part'', start_page = 3, level = 0\<rparr>
   \<and> sorted_wrt (<) (map start_page (sort_and_dedup sample_starts))"
proof -
  have ev: "sort_and_dedup sample_starts =
     [\<lparr>title = ''Intro'', start_page = 1, level = 0\<rparr>,
      \<lparr>title = ''Part'', start_page = 3, level = 0\<rparr>]"
    by (simp add: sort_and_dedup_def sample_starts_def)
  then have mem: "\<lparr>title = ''Part'', start_page = 3, level = 0\<rparr> \<in> set (sort_and_dedup sample_starts)"
    by simp
  from sort_and_dedup_spec [of sample_starts] mem
  have "find (\<lambda>x. start_page x = start_page \<lparr>title = ''Part'', start_page = 3, level = 0\<rparr>) sample_starts
       = Some \<lparr>title = ''Part'', start_page = 3, level = 0\<rparr>"
    and "sorted_wrt (<) (map start_page (sort_and_dedup sample_starts))"
    by blast+
  with ev mem show ?thesis by simp
qed

text \<open>
  Claim C9. Sorting and deduplicating a non-empty list gives a non-empty list whose
  first element is the first element of the sorted list; hence no run ends in the
  report "No valid chapter starting points found after filtering".
\<close>
theorem dedup_of_nonempty_is_nonempty:
  "(raw \<noteq> [] \<longrightarrow>
      sort_and_dedup raw \<noteq> [] \<and> hd (sort_and_dedup raw) = hd (sort_key start_page raw))
   \<and> extract_chapters_from_pdf rd can_save chapter_level \<noteq> NoValidStarts"
proof -
  have a: "sort_and_dedup xs \<noteq> [] \<and> hd (sort_and_dedup xs) = hd (sort_key start_page xs)"
    if "xs \<noteq> []" for xs
  proof -
    from that have "sort_key start_page xs \<noteq> []"
      by (metis length_sort length_0_conv)
    then show ?thesis
      unfolding sort_and_dedup_def by (rule dedup_loop_hd) simp
  qed
  then show ?thesis
    by (simp add: extract_chapters_from_pdf_def Let_def)
qed

theorem dedup_of_nonempty_is_nonempty_witness:
  "sample_starts \<noteq> []
   \<and> sort_and_dedup sample_starts \<noteq> []
   \<and> hd (sort_and_dedup sample_starts) = \<lparr>title = ''Intro'', start_page = 1, level = 0\<rparr>
   \<and> extract_chapters_from_pdf sample_reader always_saves 0 \<noteq> NoValidStarts"
proof -
  have ne: "sample_starts \<noteq> []" by (simp add: sample_starts_def)
  have hd: "hd (sort_key start_page sample_starts) = \<lparr>title = ''Intro'', start_page = 1, level = 0\<rparr>"
    by (simp add: sample_starts_def)
  from dedup_of_nonempty_is_nonempty [of sample_starts sample_reader always_saves 0] ne hd
  show ?thesis by simp
qed

section \<open>Filename sanitization: auxiliary facts\<close>

lemma sanitize_empty: "sanitize_filename [] = ''untitled''"
  by (simp add: sanitize_filename_def)

lemma sanitize_replaces_disallowed: "sanitize_filename ''A/B:C'' = ''A_B_C''"
  by code_simp

lemma collapse_whitespace_id:
  "\<forall>c \<in> set xs. \<not> py_isspace c \<Longrightarrow> collapse_whitespace xs = xs"
  by (induction xs) auto

lemma dropWhile_none: "\<forall>c \<in> set xs. \<not> P c \<Longrightarrow> dropWhile P xs = xs"
  by (cases xs) auto

lemma strip_id: "\<forall>c \<in> set xs. \<not> py_isspace c \<Longrightarrow> strip xs = xs"
  by (simp add: strip_def dropWhile_none)

lemma disallowed_not_space: "disallowed c \<Longrightarrow> \<not> py_isspace c"
  by (auto simp: disallowed_def py_isspace_def)

lemma underscore_not_space: "\<not> py_isspace CHR ''_''"
  by (simp add: py_isspace_def)

lemma sub_disallowed_no_space:
  "\<forall>c \<in> set name. \<not> py_isspace c \<Longrightarrow> \<forall>c \<in> set (sub_disallowed name). \<not> py_isspace c"
  by (auto simp: sub_disallowed_def underscore_not_space)

lemma sanitize_no_space:
  assumes "name \<noteq> []" and "\<forall>c \<in> set name. \<not> py_isspace c"
  shows "sanitize_filename name = take 150 (sub_disallowed name)"
proof -
  have ns: "\<forall>c \<in> set (sub_disallowed name). \<not> py_isspace c"
    using assms(2) by (rule sub_disallowed_no_space)
  have "strip (collapse_whitespace (sub_disallowed name)) = sub_disallowed name"
    by (simp add: collapse_whitespace_id [OF ns] strip_id [OF ns])
  moreover have "sub_disallowed name \<noteq> []" using assms(1) by (simp add: sub_disallowed_def)
  ultimately show ?thesis using assms(1) by (simp add: sanitize_filename_def Let_def)
qed

lemma sanitize_truncates:
  assumes "length name = 300" and "\<forall>c \<in> set name. \<not> py_isspace c"
  shows "length (sanitize_filename name) = 150"
proof -
  from assms(1) have "name \<noteq> []" by auto
  from sanitize_no_space [OF this assms(2)] assms(1) show ?thesis
    by (simp add: sub_disallowed_def)
qed

lemma sanitize_blank: "sanitize_filename ''   '' = ''untitled_chapter''"
  by code_simp

section \<open>Filename sanitization\<close>

text \<open>
  Claim C2. The test vectors of the sanitizer. The empty title gives \<open>untitled\<close>,
  \<open>A/B:C\<close> gives \<open>A_B_C\<close>, and a title of 300 characters without whitespace is cut
  to 150 characters (\<open>sanitize_empty\<close>, \<open>sanitize_replaces_disallowed\<close>,
  \<open>sanitize_truncates\<close> above). The last vector does not hold of the code: a
  non-empty title made only of disallowed characters comes out as a run of
  underscores, one for each character up to 150, and never as \<open>untitled_chapter\<close>,
  whatever the comment on the final test of \<open>sanitize_filename\<close> says; that
  placeholder is what a title of whitespace alone gives (\<open>sanitize_blank\<close>).
\<close>

theorem sanitize_all_disallowed:
  assumes "name \<noteq> []" and "\<forall>c \<in> set name. disallowed c"
  shows "sanitize_filename name = replicate (min 150 (length name)) CHR ''_''
       \<and> sanitize_filename name \<noteq> ''untitled_chapter''"
proof -
  have "\<forall>c \<in> set name. \<not> py_isspace c" using assms(2) disallowed_not_space by blast
  from sanitize_no_space [OF assms(1) this]
  have "sanitize_filename name = take 150 (sub_disallowed name)" .
  also have "sub_disallowed name = replicate (length name) CHR ''_''"
    using assms(2) by (induction name) (simp_all add: sub_disallowed_def)
  finally have eq: "sanitize_filename name = replicate (min 150 (length name)) CHR ''_''"
    by (simp add: min.commute)
  have "CHR ''u'' \<notin> set (replicate (min 150 (length name)) CHR ''_'')" by simp
  then have "replicate (min 150 (length name)) CHR ''_'' \<noteq> ''untitled_chapter''"
    by (metis list.set_intros(1))
  with eq show ?thesis by simp
qed

theorem sanitize_all_disallowed_witness:
  "all_disallowed_title \<noteq> []
   \<and> list_all disallowed all_disallowed_title
   \<and> sanitize_filename all_disallowed_title = ''_________''
   \<and> sanitize_filename all_disallowed_title \<noteq> ''untitled_chapter''"
proof -
  let ?n = "all_disallowed_title"
  have a: "?n \<noteq> []" by (simp add: all_disallowed_title_def)
  have b: "\<forall>c \<in> set ?n. disallowed c" by (simp add: all_disallowed_title_def disallowed_def)
  have c: "replicate (min 150 (length ?n)) CHR ''_'' = ''_________''"
    by (simp add: all_disallowed_title_def)
  have b': "list_all disallowed all_disallowed_title" using b by (simp add: list_all_iff)
  from sanitize_all_disallowed [OF a b] a b' c show ?thesis by simp
qed

section \<open>Page ranges\<close>

text \<open>
  Claim C3. For the entry at index \<open>i\<close> of the list of chapter starts, the end page is
  one less than the start page of the entry at \<open>i + 1\<close> when there is one, and the
  page count minus one for the last entry; this is the range the iteration works
  with, as its first event reports start and end (1-based).
\<close>

theorem end_page_of_each_entry:
  assumes "i < length cs" and "e = end_page_idx cs (int (length (pages rd))) i"
      and "s = start_page (cs ! i)" and "t = title (cs ! i)"
  shows "(i + 1 < length cs \<longrightarrow> e = start_page (cs ! (i + 1)) - 1)
       \<and> (i + 1 = length cs \<longrightarrow> e = int (length (pages rd)) - 1)
       \<and> (\<exists>ev rest. process_chapter rd can_save cs i = ev # rest
             \<and> ev \<in> {SkippedEmptySpan t (s + 1) (e + 1),
                      SkippedInvalidRange t (s + 1) (e + 1),
                      Extracting t (s + 1) (e + 1)})"
proof -
  have 1: "i + 1 < length cs \<longrightarrow> e = start_page (cs ! (i + 1)) - 1"
    using assms by (simp add: end_page_idx_def)
  have 2: "i + 1 = length cs \<longrightarrow> e = int (length (pages rd)) - 1"
    using assms by (simp add: end_page_idx_def)
  consider "e < s" | "s \<le> e" "s < 0 \<or> int (length (pages rd)) \<le> e"
    | "s \<le> e" "0 \<le> s" "e < int (length (pages rd))" by linarith
  then have 3: "\<exists>ev rest. process_chapter rd can_save cs i = ev # rest
             \<and> ev \<in> {SkippedEmptySpan t (s + 1) (e + 1),
                      SkippedInvalidRange t (s + 1) (e + 1),
                      Extracting t (s + 1) (e + 1)}"
  proof cases
    case 1
    from process_chapter_empty_span [OF assms(3) assms(2) 1] assms(4) show ?thesis by simp
  next
    case 2
    from process_chapter_invalid [OF assms(3) assms(2) 2] assms(4) show ?thesis by simp
  next
    case 3
    from process_chapter_valid [OF assms(3) assms(2) 3] assms(4) show ?thesis by simp
  qed
  from 1 2 3 show ?thesis by blast
qed

theorem end_page_of_each_entry_witness:
  "0 < length sample_chapters \<and> 0 + 1 < length sample_chapters
   \<and> end_page_idx sample_chapters (int (length (pages sample_reader))) 0
       = start_page (sample_chapters ! 1) - 1
   \<and> 1 < length sample_chapters \<and> 1 + 1 = length sample_chapters
   \<and> end_page_idx sample_chapters (int (length (pages sample_reader))) 1 = 2 - 1"
proof -
  have l0: "0 < length sample_chapters" and l1: "1 < length sample_chapters"
    by (simp_all add: sample_chapters_def)
  have n: "int (length (pages sample_reader)) = 2" by (simp add: sample_reader_def)
  from end_page_of_each_entry [OF l0 refl refl refl, of sample_reader always_saves]
       end_page_of_each_entry [OF l1 refl refl refl, of sample_reader always_saves] l0 l1 n
  show ?thesis by (simp add: sample_chapters_def)
qed

section \<open>Validation of a range\<close>

text \<open>
  Claim C6. A chapter of a single page (start equal to end, inside the document) is
  not rejected: it goes on to extraction, and its file holds that one page when the
  page copies and the file can be saved. A range whose start is after its end, or
  with a bound outside the document, gives one warning and nothing else, and the
  loop goes on with the chapters after it.
\<close>

theorem single_page_accepted_invalid_skipped:
  assumes "s = start_page (cs ! i)" and "e = end_page_idx cs num_pages i"
      and "num_pages = int (length (pages rd))" and "t = title (cs ! i)"
      and "f = output_filename cs i"
  shows "(s = e \<and> 0 \<le> s \<and> s < num_pages \<longrightarrow>
            process_chapter rd can_save cs i =
              Extracting t (s + 1) (s + 1)
              # (if copyable rd s
                 then [if can_save f then Saved f [s] else SaveError f]
                 else [PageError (s + 1) t, SkippedNoPages t]))
       \<and> (e < s \<longrightarrow> process_chapter rd can_save cs i = [SkippedEmptySpan t (s + 1) (e + 1)])
       \<and> (s \<le> e \<and> (s < 0 \<or> num_pages \<le> s \<or> e < 0 \<or> num_pages \<le> e) \<longrightarrow>
            process_chapter rd can_save cs i = [SkippedInvalidRange t (s + 1) (e + 1)])
       \<and> (i < length cs \<longrightarrow>
            emission_loop rd can_save cs [0..<length cs] =
              emission_loop rd can_save cs [0..<i] @ process_chapter rd can_save cs i
              @ emission_loop rd can_save cs [Suc i..<length cs])"
proof -
  have e': "e = end_page_idx cs (int (length (pages rd))) i" using assms by simp
  have 1: "process_chapter rd can_save cs i =
              Extracting t (s + 1) (s + 1)
              # (if copyable rd s
                 then [if can_save f then Saved f [s] else SaveError f]
                 else [PageError (s + 1) t, SkippedNoPages t])"
    if "s = e \<and> 0 \<le> s \<and> s < num_pages"
  proof -
    from that assms have v: "s \<le> e" "0 \<le> s" "e < int (length (pages rd))" by simp_all
    from that have "[s..e] = [s]" by simp
    with process_chapter_valid [OF assms(1) e' v, of can_save] that assms(4,5)
    show ?thesis by simp
  qed
  have 2: "process_chapter rd can_save cs i = [SkippedEmptySpan t (s + 1) (e + 1)]" if "e < s"
    using process_chapter_empty_span [OF assms(1) e' that] assms(4) by simp
  have 3: "process_chapter rd can_save cs i = [SkippedInvalidRange t (s + 1) (e + 1)]"
    if "s \<le> e \<and> (s < 0 \<or> num_pages \<le> s \<or> e < 0 \<or> num_pages \<le> e)"
  proof -
    from that assms(3) have "s \<le> e" "s < 0 \<or> int (length (pages rd)) \<le> e" by auto
    from process_chapter_invalid [OF assms(1) e' this] assms(4) show ?thesis by simp
  qed
  have 4: "emission_loop rd can_save cs [0..<length cs] =
              emission_loop rd can_save cs [0..<i] @ process_chapter rd can_save cs i
              @ emission_loop rd can_save cs [Suc i..<length cs]" if "i < length cs"
    using that by (rule emission_loop_split)
  from 1 2 3 4 show ?thesis by blast
qed

theorem single_page_accepted_invalid_skipped_witness:
  "process_chapter sample_reader always_saves sample_chapters 1
     = [Extracting ''B'' 2 2, Saved ''002_B.pdf'' [1]]
   \<and> process_chapter sample_reader always_saves [\<lparr>title = ''X'', start_page = 5, level = 0\<rparr>] 0
     = [SkippedEmptySpan ''X'' 6 2]
   \<and> process_chapter sample_reader always_saves
       [\<lparr>title = ''Y'', start_page = -1, level = 0\<rparr>, \<lparr>title = ''B'', start_page = 1, level = 0\<rparr>] 0
     = [SkippedInvalidRange ''Y'' 0 1]
   \<and> emission_loop sample_reader always_saves sample_chapters [0..<length sample_chapters]
     = emission_loop sample_reader always_saves sample_chapters [0..<0]
       @ process_chapter sample_reader always_saves sample_chapters 0
       @ emission_loop sample_reader always_saves sample_chapters [Suc 0..<length sample_chapters]"
proof -
  let ?x = "[\<lparr>title = ''X'', start_page = 5, level = 0\<rparr>]"
  let ?y = "[\<lparr>title = ''Y'', start_page = -1, level = 0\<rparr>, \<lparr>title = ''B'', start_page = 1, level = 0\<rparr>]"
  let ?n = "int (length (pages sample_reader))"
  have n: "?n = 2" by (simp add: sample_reader_def)
  have c1: "copyable sample_reader 1"
    by (simp add: copyable_def add_page_def py_index_def sample_reader_def)
  have sb: "start_page (sample_chapters ! 1) = 1" and tb: "title (sample_chapters ! 1) = ''B''"
    by (simp_all add: sample_chapters_def)
  have eb: "end_page_idx sample_chapters ?n 1 = 1"
    by (simp add: end_page_idx_def sample_reader_def sample_chapters_def)
  have fb: "output_filename sample_chapters 1 = ''002_B.pdf''" by code_simp
  have sv: "always_saves ''002_B.pdf''" by (simp add: always_saves_def)
  have hb: "start_page (sample_chapters ! 1) = end_page_idx sample_chapters ?n 1
            \<and> 0 \<le> start_page (sample_chapters ! 1) \<and> start_page (sample_chapters ! 1) < ?n"
    by (simp add: end_page_idx_def sample_reader_def sample_chapters_def)
  have A: "process_chapter sample_reader always_saves sample_chapters 1
     = [Extracting ''B'' 2 2, Saved ''002_B.pdf'' [1]]"
    using single_page_accepted_invalid_skipped
            [where rd = sample_reader and cs = "sample_chapters" and i = 1 and can_save = always_saves,
             OF refl refl refl refl refl,
             THEN conjunct1, THEN mp, OF hb]
    unfolding sb tb fb
    by (simp add: c1 sv)
  have sx: "start_page (?x ! 0) = 5" and tx: "title (?x ! 0) = ''X''" by simp_all
  have ex: "end_page_idx ?x ?n 0 = 1" by (simp add: end_page_idx_def sample_reader_def)
  have hx: "end_page_idx ?x ?n 0 < start_page (?x ! 0)"
    by (simp add: end_page_idx_def sample_reader_def)
  have B: "process_chapter sample_reader always_saves ?x 0 = [SkippedEmptySpan ''X'' 6 2]"
    using single_page_accepted_invalid_skipped
            [where rd = sample_reader and cs = "?x" and i = 0 and can_save = always_saves,
             OF refl refl refl refl refl,
             THEN conjunct2, THEN conjunct1, THEN mp, OF hx]
    unfolding sx ex tx by simp
  have sy: "start_page (?y ! 0) = -1" and ty: "title (?y ! 0) = ''Y''" by simp_all
  have ey: "end_page_idx ?y ?n 0 = 0" by (simp add: end_page_idx_def sample_reader_def)
  have hy: "start_page (?y ! 0) \<le> end_page_idx ?y ?n 0
            \<and> (start_page (?y ! 0) < 0 \<or> ?n \<le> start_page (?y ! 0)
               \<or> end_page_idx ?y ?n 0 < 0 \<or> ?n \<le> end_page_idx ?y ?n 0)"
    by (simp add: end_page_idx_def sample_reader_def)
  have C: "process_chapter sample_reader always_saves ?y 0 = [SkippedInvalidRange ''Y'' 0 1]"
    using single_page_accepted_invalid_skipped
            [where rd = sample_reader and cs = "?y" and i = 0 and can_save = always_saves,
             OF refl refl refl refl refl,
             THEN conjunct2, THEN conjunct2, THEN conjunct1, THEN mp, OF hy]
    unfolding sy ey ty by simp
  have l: "0 < length sample_chapters" by (simp add: sample_chapters_def)
  have D: "emission_loop sample_reader always_saves sample_chapters [0..<length sample_chapters]
     = emission_loop sample_reader always_saves sample_chapters [0..<0]
       @ process_chapter sample_reader always_saves sample_chapters 0
       @ emission_loop sample_reader always_saves sample_chapters [Suc 0..<length sample_chapters]"
    using single_page_accepted_invalid_skipped
            [where rd = sample_reader and cs = "sample_chapters" and i = 0 and can_save = always_saves,
             OF refl refl refl refl refl,
             THEN conjunct2, THEN conjunct2, THEN conjunct2, THEN mp, OF l] .
  from A B C D show ?thesis by blast
qed

section \<open>Copying the pages of a chapter\<close>

text \<open>
  Claim C8. For a valid range, a page that fails to copy is reported and left out,
  and every other page of the range is still appended, in order; when no page of the
  range copies, the chapter ends with the warning that no pages could be added and
  no file is written for it.
\<close>

theorem page_failure_skips_only_that_page:
  assumes "s = start_page (cs ! i)" and "e = end_page_idx cs (int (length (pages rd))) i"
      and "s \<le> e" and "0 \<le> s" and "e < int (length (pages rd))"
  shows "process_chapter rd can_save cs i =
           Extracting (title (cs ! i)) (s + 1) (e + 1)
           # map (\<lambda>p. PageError (p + 1) (title (cs ! i))) (filter (\<lambda>p. \<not> copyable rd p) [s..e])
           @ [if filter (copyable rd) [s..e] = [] then SkippedNoPages (title (cs ! i))
              else if can_save (output_filename cs i)
              then Saved (output_filename cs i) (filter (copyable rd) [s..e])
              else SaveError (output_filename cs i)]
       \<and> ((\<forall>p \<in> set [s..e]. \<not> copyable rd p) \<longrightarrow>
            saved_files (process_chapter rd can_save cs i) = []
            \<and> last (process_chapter rd can_save cs i) = SkippedNoPages (title (cs ! i)))"
proof -
  note eq = process_chapter_valid [OF assms, of can_save]
  have "saved_files (process_chapter rd can_save cs i) = []
        \<and> last (process_chapter rd can_save cs i) = SkippedNoPages (title (cs ! i))"
    if "\<forall>p \<in> set [s..e]. \<not> copyable rd p"
  proof -
    from that have "filter (copyable rd) [s..e] = []" by (simp add: filter_empty_conv)
    then show ?thesis
      unfolding eq
      by (simp add: saved_files_Cons saved_files_append saved_files_page_errors saved_files_Nil)
  qed
  with eq show ?thesis by blast
qed

theorem page_failure_skips_only_that_page_witness:
  "process_chapter sample_reader always_saves [\<lparr>title = ''A'', start_page = 0, level = 0\<rparr>] 0
     = [Extracting ''A'' 1 2, PageError 1 ''A'', Saved ''001_A.pdf'' [1]]
   \<and> \<not> copyable sample_reader 0
   \<and> saved_files (process_chapter sample_reader always_saves sample_chapters 0) = []
   \<and> last (process_chapter sample_reader always_saves sample_chapters 0) = SkippedNoPages ''A''"
proof -
  let ?one = "[\<lparr>title = ''A'', start_page = 0, level = 0\<rparr>]"
  let ?n = "int (length (pages sample_reader))"
  have n: "?n = 2" by (simp add: sample_reader_def)
  have s1: "start_page (?one ! 0) = 0" and t1: "title (?one ! 0) = ''A''" by simp_all
  have e1: "end_page_idx ?one ?n 0 = 1" by (simp add: end_page_idx_def sample_reader_def)
  have s2: "start_page (sample_chapters ! 0) = 0" and t2: "title (sample_chapters ! 0) = ''A''"
    by (simp_all add: sample_chapters_def)
  have e2: "end_page_idx sample_chapters ?n 0 = 0"
    by (simp add: end_page_idx_def sample_reader_def sample_chapters_def)
  have c0: "\<not> copyable sample_reader 0" and c1: "copyable sample_reader 1"
    by (simp_all add: copyable_def add_page_def py_index_def sample_reader_def)
  have u1: "[0..1] = [0, 1::int]" and u0: "[0..0] = [0::int]" by code_simp+
  have f: "output_filename ?one 0 = ''001_A.pdf''" by code_simp
  have sv: "always_saves ''001_A.pdf''" by (simp add: always_saves_def)
  have all: "\<forall>p \<in> set [0..0]. \<not> copyable sample_reader p" unfolding u0 using c0 by simp
  have v1: "start_page (?one ! 0) \<le> end_page_idx ?one ?n 0" "0 \<le> start_page (?one ! 0)"
           "end_page_idx ?one ?n 0 < ?n"
    by (simp_all add: end_page_idx_def sample_reader_def)
  have v2: "start_page (sample_chapters ! 0) \<le> end_page_idx sample_chapters ?n 0"
           "0 \<le> start_page (sample_chapters ! 0)" "end_page_idx sample_chapters ?n 0 < ?n"
    by (simp_all add: end_page_idx_def sample_reader_def sample_chapters_def)
  have A: "process_chapter sample_reader always_saves ?one 0
     = [Extracting ''A'' 1 2, PageError 1 ''A'', Saved ''001_A.pdf'' [1]]"
    using page_failure_skips_only_that_page [OF refl refl v1, of always_saves, THEN conjunct1]
    unfolding s1 e1 t1 u1 f
    by (simp add: c0 c1 sv)
  have all2: "\<forall>p \<in> set [start_page (sample_chapters ! 0)..end_page_idx sample_chapters ?n 0].
                \<not> copyable sample_reader p"
    unfolding s2 e2 by (rule all)
  have B: "saved_files (process_chapter sample_reader always_saves sample_chapters 0) = []
     \<and> last (process_chapter sample_reader always_saves sample_chapters 0) = SkippedNoPages ''A''"
    using page_failure_skips_only_that_page
            [OF refl refl v2, of always_saves, THEN conjunct2, THEN mp, OF all2]
    unfolding t2 .
  from A B c0 show ?thesis by blast
qed

section \<open>Output filenames\<close>

text \<open>
  Claim C1, as amended. The files written by a run are, in order, those of the
  indices \<open>i\<close> of the sorted and deduplicated list whose iteration saves a file, and
  the name of each is the number \<open>i + 1\<close> in three digits, an underscore, the
  sanitized title and \<open>.pdf\<close>: the number is the position of the chapter in the
  deduplicated list, so a skipped chapter still uses up its number.
\<close>

theorem filename_index_is_position_after_dedup:
  assumes "extract_chapters_from_pdf rd can_save chapter_level = ExtractionComplete evs"
      and "cs = sort_and_dedup (find_chapter_bookmarks (outline rd) rd chapter_level 0)"
  shows "saved_files evs =
           map (\<lambda>i. format_03d (i + 1) @ ''_'' @ sanitize_filename (title (cs ! i)) @ ''.pdf'')
             (filter (chapter_saved rd can_save cs) [0..<length cs])"
proof -
  from assms have "evs = emission_loop rd can_save cs [0..<length cs]"
    by (simp add: extract_chapters_from_pdf_def Let_def split: if_splits)
  then show ?thesis
    by (simp add: saved_files_emission_loop output_filename_def [abs_def])
qed

theorem filename_index_is_position_after_dedup_witness:
  "extract_chapters_from_pdf sample_reader always_saves 0 =
     ExtractionComplete
       [Extracting ''A'' 1 1, PageError 1 ''A'', SkippedNoPages ''A'',
        Extracting ''B'' 2 2, Saved ''002_B.pdf'' [1]]
   \<and> sample_chapters = sort_and_dedup (find_chapter_bookmarks (outline sample_reader) sample_reader 0 0)
   \<and> filter (chapter_saved sample_reader always_saves sample_chapters) [0..<length sample_chapters] = [1]
   \<and> saved_files
       [Extracting ''A'' 1 1, PageError 1 ''A'', SkippedNoPages ''A'',
        Extracting ''B'' 2 2, Saved ''002_B.pdf'' [1]]
     = [format_03d (1 + 1) @ ''_'' @ sanitize_filename (title (sample_chapters ! 1)) @ ''.pdf'']"
proof -
  let ?evs = "[Extracting ''A'' 1 1, PageError 1 ''A'', SkippedNoPages ''A'',
        Extracting ''B'' 2 2, Saved ''002_B.pdf'' [1]]"
  have run: "extract_chapters_from_pdf sample_reader always_saves 0 = ExtractionComplete ?evs"
    by code_simp
  have cs: "sample_chapters = sort_and_dedup (find_chapter_bookmarks (outline sample_reader) sample_reader 0 0)"
    by code_simp
  have fl: "filter (chapter_saved sample_reader always_saves sample_chapters) [0..<length sample_chapters] = [1]"
    by code_simp
  from filename_index_is_position_after_dedup [OF run cs] run cs fl
  show ?thesis by simp
qed

text \<open>
  Claim C1 as stated fails on the sample document: chapter \<open>A\<close> is skipped because its
  only page does not copy, and chapter \<open>B\<close>, the first and only one emitted, is
  written as \<open>002_B.pdf\<close>, not under the index 1.
\<close>

theorem filename_index_counterexample:
  "extract_chapters_from_pdf sample_reader always_saves 0 =
     ExtractionComplete
       [Extracting ''A'' 1 1, PageError 1 ''A'', SkippedNoPages ''A'',
        Extracting ''B'' 2 2, Saved ''002_B.pdf'' [1]]
   \<and> ''002_B.pdf'' \<noteq> format_03d 1 @ ''_'' @ sanitize_filename ''B'' @ ''.pdf''"
  by code_simp

end
